theory Spec2Isabelle
  imports Main
begin

section \<open>auto\_qc.py: detection of finished sequencing runs and construction of the QC command\<close>

text \<open>
  The development embeds \<^verbatim>\<open>src/auto_qc.py\<close>. Python \<^verbatim>\<open>str\<close> values are modelled as
  \<^typ>\<open>string\<close>, so a character is one of the 256 values of \<^typ>\<open>char\<close>; on these the
  class \<^verbatim>\<open>\d\<close> of Python's \<^verbatim>\<open>re\<close> module is exactly \<^verbatim>\<open>[0-9]\<close>.
  Exceptions are values of the type \<open>error\<close>, returned as \<open>Inl\<close>. Every function is
  embedded as its text reads; the text of \<^verbatim>\<open>list_subdirectories\<close> does not parse (line
  26), and the function is embedded as what a call of it gives, a \<^verbatim>\<open>SyntaxError\<close>. What the program reads
  from its environment (the directory tree, the random UUIDs) is held in an explicit
  \<open>world\<close> record that every task receives and returns.
\<close>

subsection \<open>Regular expressions of \<^verbatim>\<open>build_workflow_command\<close>\<close>

text \<open>
  The two patterns of the source are sequences of quantified character classes:
  \<^verbatim>\<open>'\d{6}_M\d{5}_\d+_\d{9}-[A-Z0-9]{5}'\<close> and \<^verbatim>\<open>'\d{6}_VH\d{5}_\d+_[A-Z0-9]{9}'\<close>.
  A pattern is a list of items, an item a character class with its quantifier.
\<close>

datatype cls = Digit | Lit char | UpperOrDigit

fun in_cls :: "cls \<Rightarrow> char \<Rightarrow> bool" where
  "in_cls Digit c = (c \<in> set ''0123456789'')"
| "in_cls (Lit l) c = (c = l)"
| "in_cls UpperOrDigit c =
     (c \<in> set ''ABCDEFGHIJKLMNOPQRSTUVWXYZ'' \<or> c \<in> set ''0123456789'')"

datatype quant = Once | Times nat | Plus

type_synonym regex = "(cls \<times> quant) list"

text \<open>
  \<open>re_match p s\<close> is the truth value of \<^verbatim>\<open>re.match(p, s)\<close>: some prefix of \<open>s\<close> matches
  the whole pattern. The matcher backtracks as Python's does: \<^verbatim>\<open>+\<close> first tries to take one
  more character and only then goes on with the rest of the pattern.
\<close>

fun re_match :: "regex \<Rightarrow> string \<Rightarrow> bool" where
  "re_match [] s = True"
| "re_match ((c, Once) # p) [] = False"
| "re_match ((c, Once) # p) (x # xs) = (in_cls c x \<and> re_match p xs)"
| "re_match ((c, Times 0) # p) s = re_match p s"
| "re_match ((c, Times (Suc n)) # p) [] = False"
| "re_match ((c, Times (Suc n)) # p) (x # xs) =
     (in_cls c x \<and> re_match ((c, Times n) # p) xs)"
| "re_match ((c, Plus) # p) [] = False"
| "re_match ((c, Plus) # p) (x # xs) =
     (in_cls c x \<and> (re_match ((c, Plus) # p) xs \<or> re_match p xs))"

definition miseq_regex :: regex where
  "miseq_regex =
     [(Digit, Times 6), (Lit CHR ''_'', Once), (Lit CHR ''M'', Once), (Digit, Times 5),
      (Lit CHR ''_'', Once), (Digit, Plus), (Lit CHR ''_'', Once), (Digit, Times 9),
      (Lit CHR ''-'', Once), (UpperOrDigit, Times 5)]"

definition nextseq_regex :: regex where
  "nextseq_regex =
     [(Digit, Times 6), (Lit CHR ''_'', Once), (Lit CHR ''V'', Once), (Lit CHR ''H'', Once),
      (Digit, Times 5), (Lit CHR ''_'', Once), (Digit, Plus), (Lit CHR ''_'', Once),
      (UpperOrDigit, Times 9)]"

text \<open>
  Lines 35 to 39 of the source: the variable \<^verbatim>\<open>instrument_type\<close> starts as \<^verbatim>\<open>None\<close> and is
  set by the \<^verbatim>\<open>if\<close>/\<^verbatim>\<open>elif\<close> chain; there is no \<^verbatim>\<open>else\<close> branch.
\<close>

definition instrument_type :: "string \<Rightarrow> string option" where
  "instrument_type run_id =
     (if re_match miseq_regex run_id then Some ''miseq''
      else if re_match nextseq_regex run_id then Some ''nextseq''
      else None)"

subsection \<open>Paths\<close>

text \<open>
  \<^verbatim>\<open>os.path.join(a, b)\<close> of \<^verbatim>\<open>posixpath\<close>, for two arguments: an absolute \<open>b\<close> replaces
  \<open>a\<close>; otherwise \<open>b\<close> is appended, after a slash unless \<open>a\<close> is empty or ends with one.
\<close>

definition join :: "string \<Rightarrow> string \<Rightarrow> string" where
  "join a b =
     (if b \<noteq> [] \<and> hd b = CHR ''/'' then b
      else if a = [] \<or> last a = CHR ''/'' then a @ b
      else a @ CHR ''/'' # b)"

text \<open>\<^verbatim>\<open>os.path.basename(p)\<close>: what follows the last slash of \<open>p\<close>.\<close>

definition basename :: "string \<Rightarrow> string" where
  "basename p = rev (takeWhile (\<lambda>c. c \<noteq> CHR ''/'') (rev p))"

subsection \<open>The directory tree\<close>

text \<open>
  A filesystem is a tree: a regular file, or a directory with its named entries in the
  order in which the operating system lists them. Symbolic links and permissions are not
  modelled. A path is resolved from the top of the tree, for an absolute path as for a
  relative one (the working directory of the process is the top); empty components are
  skipped, \<^verbatim>\<open>.\<close> stays in the current directory and \<^verbatim>\<open>..\<close> goes to its parent. A
  component below a regular file fails with \<^verbatim>\<open>NotADirectoryError\<close>, a name that the
  directory lacks with \<^verbatim>\<open>FileNotFoundError\<close>. A path that ends with a slash must name a
  directory, as if it ended with \<^verbatim>\<open>/.\<close>; the empty path names nothing.
\<close>

datatype error = SyntaxError | FileNotFoundError | NotADirectoryError

datatype node = File | Dir "(string \<times> node) list"

fun is_Dir :: "node \<Rightarrow> bool" where
  "is_Dir File = False"
| "is_Dir (Dir es) = True"

fun split_on :: "char \<Rightarrow> string \<Rightarrow> string list" where
  "split_on c [] = [[]]"
| "split_on c (x # xs) =
     (if x = c then [] # split_on c xs
      else (case split_on c xs of [] \<Rightarrow> [[x]] | w # ws \<Rightarrow> (x # w) # ws))"

definition components :: "string \<Rightarrow> string list" where
  "components p = filter (\<lambda>w. w \<noteq> []) (split_on CHR ''/'' p)"

fun walk :: "node \<Rightarrow> node list \<Rightarrow> string list \<Rightarrow> error + node \<times> node list" where
  "walk cur anc [] = Inr (cur, anc)"
| "walk cur anc (c # cs) =
     (case cur of
        File \<Rightarrow> Inl NotADirectoryError
      | Dir es \<Rightarrow>
          if c = ''.'' then walk cur anc cs
          else if c = ''..'' then
            (case anc of [] \<Rightarrow> walk cur [] cs | a # as \<Rightarrow> walk a as cs)
          else (case map_of es c of
                  None \<Rightarrow> Inl FileNotFoundError
                | Some n \<Rightarrow> walk n (cur # anc) cs))"

definition lookup :: "node \<Rightarrow> string \<Rightarrow> error + node" where
  "lookup t p =
     (if p = [] then Inl FileNotFoundError
      else (case walk t [] (components p @ (if last p = CHR ''/'' then [''.''] else [])) of
              Inl e \<Rightarrow> Inl e
            | Inr (n, anc) \<Rightarrow> Inr n))"

text \<open>
  \<^verbatim>\<open>os.path.exists(p)\<close>: the path resolves, to an entry of any kind; a failure to resolve
  it is the answer \<^verbatim>\<open>False\<close>.
\<close>

definition exists :: "node \<Rightarrow> string \<Rightarrow> bool" where
  "exists t p = (case lookup t p of Inl e \<Rightarrow> False | Inr n \<Rightarrow> True)"

record DirEntry =
  name :: string
  path :: string
  is_dir :: bool

text \<open>
  \<^verbatim>\<open>os.scandir(p)\<close>: one \<^verbatim>\<open>DirEntry\<close> for each entry of the directory \<open>p\<close>, whose \<^verbatim>\<open>path\<close> is
  \<^verbatim>\<open>os.path.join(p, name)\<close>; it raises when \<open>p\<close> does not exist or is not a directory.
\<close>

definition scandir :: "node \<Rightarrow> string \<Rightarrow> error + DirEntry list" where
  "scandir t p =
     (case lookup t p of
        Inl e \<Rightarrow> Inl e
      | Inr File \<Rightarrow> Inl NotADirectoryError
      | Inr (Dir es) \<Rightarrow>
          Inr (map (\<lambda>(n, nd). \<lparr>name = n, path = join p n, is_dir = is_Dir nd\<rparr>) es))"

text \<open>
  Well-formed trees: in every directory the names are distinct, non-empty, free of slashes
  and different from \<^verbatim>\<open>.\<close> and \<^verbatim>\<open>..\<close>, as in every directory an operating system lists.
\<close>

definition valid_name :: "string \<Rightarrow> bool" where
  "valid_name n = (n \<noteq> [] \<and> CHR ''/'' \<notin> set n \<and> n \<noteq> ''.'' \<and> n \<noteq> ''..'')"

fun wf_node :: "node \<Rightarrow> bool" where
  "wf_node File = True"
| "wf_node (Dir es) =
     (distinct (map fst es) \<and> (\<forall>e \<in> set es. valid_name (fst e) \<and> wf_node (snd e)))"

text \<open>The names of the entries of a directory; a file has none.\<close>

fun names :: "node \<Rightarrow> string set" where
  "names File = {}"
| "names (Dir es) = fst ` set es"

subsection \<open>The world of a run\<close>

text \<open>
  The state that the tasks read and change: the directory tree; the source of randomness
  behind \<^verbatim>\<open>uuid.uuid4()\<close>, as the sequence of the UUID strings it will return and the number
  of those already drawn; and the log of the commands started as child processes.
\<close>

record world =
  fs :: node
  uuid_source :: "nat \<Rightarrow> string"
  uuid_drawn :: nat
  spawned :: "string list"

text \<open>\<^verbatim>\<open>str(uuid.uuid4())\<close>: the next UUID of the source.\<close>

definition uuid4 :: "world \<Rightarrow> string \<times> world" where
  "uuid4 w = (uuid_source w (uuid_drawn w), w\<lparr>uuid_drawn := Suc (uuid_drawn w)\<rparr>)"

subsection \<open>The tasks\<close>

text \<open>
  \<^verbatim>\<open>list_subdirectories\<close> (lines 22 to 28). Line 26 of the source reads
  \<^verbatim>\<open>if f.is_dir() and os.path.exists(os.path.join(f, 'upload_complete.json'):\<close>
  and never closes the call of \<^verbatim>\<open>os.path.exists\<close>: Python rejects the text with a
  \<^verbatim>\<open>SyntaxError\<close>. The function as it is written returns no list for any argument; what
  a caller gets is that error.
\<close>

definition list_subdirectories :: "node \<Rightarrow> string \<Rightarrow> error + string list" where
  "list_subdirectories t parent_dir = Inl SyntaxError"

text \<open>
  \<open>list_subdirectories_closed\<close> is the function with the missing parenthesis put after the
  call of \<^verbatim>\<open>os.path.join\<close>, the only place where both calls have their arguments. It is
  what line 26 attempts, not what the repository holds, and serves only to tell how far the
  code as written is from it. The loop appends to \<^verbatim>\<open>subdirectories\<close>, here the accumulator
  of \<open>foldl\<close>; the \<^verbatim>\<open>DirEntry\<close> \<open>f\<close> stands for its path inside \<^verbatim>\<open>os.path.join\<close>.
\<close>

definition list_subdirectories_closed :: "node \<Rightarrow> string \<Rightarrow> error + string list" where
  "list_subdirectories_closed t parent_dir =
     (case scandir t parent_dir of
        Inl e \<Rightarrow> Inl e
      | Inr entries \<Rightarrow>
          Inr (foldl (\<lambda>subdirectories f.
                 if is_dir f \<and> exists t (join (path f) ''upload_complete.json'')
                 then subdirectories @ [path f] else subdirectories) [] entries))"

text \<open>The rendering of a value inside an f-string: \<^verbatim>\<open>str(None)\<close> is \<^verbatim>\<open>'None'\<close>.\<close>

fun format_value :: "string option \<Rightarrow> string" where
  "format_value None = ''None''"
| "format_value (Some s) = s"

text \<open>
  Lines 32 to 47 of \<^verbatim>\<open>build_workflow_command\<close>, for a given UUID. The two f-strings of
  lines 46 and 47 are adjacent literals, which Python concatenates as they are.
\<close>

definition workflow_cmd :: "string \<Rightarrow> string \<Rightarrow> string" where
  "workflow_cmd run_dir work_dir_uuid =
     (let run_id = basename run_dir;
          pipeline_name = ''BCCDC-PHL/routine-qc'';
          pipeline_version = ''v0.3.2'';
          nextflow_base_cmd = ''nextflow run'';
          outdir = join run_dir ''RoutineQC'';
          work_dir = join run_dir (''work-'' @ work_dir_uuid)
      in (nextflow_base_cmd @ '' '' @ pipeline_name
            @ '' -profile conda --cache ~/.conda/envs -r '' @ pipeline_version)
         @ (''--run_dir '' @ run_dir @ '' --instrument_type ''
            @ format_value (instrument_type run_id)
            @ '' -work '' @ work_dir @ '' --outdir '' @ outdir))"

definition build_workflow_command :: "string \<Rightarrow> world \<Rightarrow> string \<times> world" where
  "build_workflow_command run_dir w =
     (case uuid4 w of (work_dir_uuid, w') \<Rightarrow> (workflow_cmd run_dir work_dir_uuid, w'))"

text \<open>
  \<^verbatim>\<open>filter_analyzed_runs\<close> (line 52): Prefect's \<^verbatim>\<open>FilterTask\<close> keeps the elements of its
  input for which \<^verbatim>\<open>filter_func\<close> holds, in their order.
\<close>

definition filter_func :: "node \<Rightarrow> string \<Rightarrow> bool" where
  "filter_func t x = (\<not> exists t (join x ''RoutineQC''))"

definition filter_analyzed_runs :: "node \<Rightarrow> string list \<Rightarrow> string list" where
  "filter_analyzed_runs t task_results = filter (filter_func t) task_results"

text \<open>
  \<^verbatim>\<open>build_workflow_task\<close> (lines 55 to 58) makes a \<^verbatim>\<open>ShellTask\<close> object of a command and
  returns it; it starts nothing. Prefect's \<^verbatim>\<open>ShellTask\<close> starts its command as a child
  process when it is run, which \<open>run_shell_task\<close> records in the log \<open>spawned\<close>.
\<close>

datatype shell_task = ShellTask (command: string)

definition build_workflow_task :: "string \<Rightarrow> shell_task" where
  "build_workflow_task cmd = ShellTask cmd"

definition run_shell_task :: "shell_task \<Rightarrow> world \<Rightarrow> world" where
  "run_shell_task task w = w\<lparr>spawned := spawned w @ [command task]\<rparr>"

subsection \<open>The flow\<close>

text \<open>
  \<^verbatim>\<open>build_workflow_command.map(subdirs_to_analyze)\<close>: one call for each element, from left
  to right, each drawing its own UUID.
\<close>

fun map_build_workflow_command :: "string list \<Rightarrow> world \<Rightarrow> string list \<times> world" where
  "map_build_workflow_command [] w = ([], w)"
| "map_build_workflow_command (d # ds) w =
     (case build_workflow_command d w of
        (c, w1) \<Rightarrow> (case map_build_workflow_command ds w1 of (cs, w2) \<Rightarrow> (c # cs, w2)))"

text \<open>
  One run of the flow that \<^verbatim>\<open>build_flow\<close> (lines 61 to 71) assembles. The flow holds the
  three tasks called inside the \<^verbatim>\<open>with\<close> block and no other: \<^verbatim>\<open>build_workflow_task\<close> and
  \<^verbatim>\<open>show_output\<close> are defined in the module and never called. The result records the value
  of each of the three variables of the block; a failure of the scan fails the run.
  \<open>run_after_scan\<close> is lines 68 and 69, given what line 67 returned or raised.
\<close>

record flow_result =
  subdirs :: "string list"
  subdirs_to_analyze :: "string list"
  cmd :: "string list"

definition run_after_scan :: "error + string list \<Rightarrow> world \<Rightarrow> (error + flow_result) \<times> world" where
  "run_after_scan scanned w =
     (case scanned of
        Inl e \<Rightarrow> (Inl e, w)
      | Inr sds \<Rightarrow>
          (let to_analyze = filter_analyzed_runs (fs w) sds
           in case map_build_workflow_command to_analyze w of
                (cs, w') \<Rightarrow>
                  (Inr \<lparr>subdirs = sds, subdirs_to_analyze = to_analyze, cmd = cs\<rparr>, w')))"

definition flow_run :: "string \<Rightarrow> world \<Rightarrow> (error + flow_result) \<times> world" where
  "flow_run parent_dir w = run_after_scan (list_subdirectories (fs w) parent_dir) w"

text \<open>The same run with \<open>list_subdirectories_closed\<close> as its first task.\<close>

definition flow_run_closed :: "string \<Rightarrow> world \<Rightarrow> (error + flow_result) \<times> world" where
  "flow_run_closed parent_dir w =
     run_after_scan (list_subdirectories_closed (fs w) parent_dir) w"

subsection \<open>Notions of the specification\<close>

text \<open>
  The markers of a run directory, in the words of the specification: the completion marker
  is an entry named \<^verbatim>\<open>upload_complete.json\<close>, the analysis marker an entry named
  \<^verbatim>\<open>RoutineQC\<close>. A run is eligible when it is a directory with the first and without
  the second.
\<close>

definition completion_marker :: "node \<Rightarrow> bool" where
  "completion_marker nd = (''upload_complete.json'' \<in> names nd)"

definition analysis_marker :: "node \<Rightarrow> bool" where
  "analysis_marker nd = (''RoutineQC'' \<in> names nd)"

definition eligible :: "node \<Rightarrow> bool" where
  "eligible nd = (is_Dir nd \<and> completion_marker nd \<and> \<not> analysis_marker nd)"

text \<open>
  The result of \<^verbatim>\<open>build_workflow_command.map\<close> holds, at each position, the command built
  for the directory at that position of its input. \<open>commands_for r d\<close> are the commands
  built for the run directory \<open>d\<close> in a run of the flow with result \<open>r\<close>, and
  \<open>eligible_runs\<close> is the set of the run directories that a run of the flow found eligible
  (or the error that failed it).
\<close>

definition commands_for :: "flow_result \<Rightarrow> string \<Rightarrow> string list" where
  "commands_for r d =
     map snd (filter (\<lambda>(d', c). d' = d) (zip (subdirs_to_analyze r) (cmd r)))"

definition eligible_runs :: "error + flow_result \<Rightarrow> error + string set" where
  "eligible_runs res =
     (case res of Inl e \<Rightarrow> Inl e | Inr r \<Rightarrow> Inr (set (subdirs_to_analyze r)))"


text \<open>\<open>contains s pat\<close>: the text \<open>pat\<close> occurs in \<open>s\<close>, as Python's \<^verbatim>\<open>pat in s\<close>.\<close>

fun starts_with :: "string \<Rightarrow> string \<Rightarrow> bool" where
  "starts_with s [] = True"
| "starts_with [] (p # ps) = False"
| "starts_with (x # xs) (p # ps) = (x = p \<and> starts_with xs ps)"

fun contains :: "string \<Rightarrow> string \<Rightarrow> bool" where
  "contains [] pat = (pat = [])"
| "contains (x # xs) pat = (starts_with (x # xs) pat \<or> contains xs pat)"

text \<open>
  A directory tree for the examples: under \<^verbatim>\<open>/data\<close>, a finished run, a run whose only
  completion marker lies one level too deep, a run already analysed, a run whose completion
  marker is a directory, a run whose analysis marker is a regular file, and a regular file.
\<close>

definition example_runs :: "(string \<times> node) list" where
  "example_runs =
     [(''runA'', Dir [(''upload_complete.json'', File), (''Data'', Dir [])]),
      (''runB'', Dir [(''Data'', Dir [(''upload_complete.json'', File)])]),
      (''runC'', Dir [(''upload_complete.json'', File), (''RoutineQC'', Dir [])]),
      (''runD'', Dir [(''upload_complete.json'', Dir [])]),
      (''runE'', Dir [(''upload_complete.json'', File), (''RoutineQC'', File)]),
      (''notes.txt'', File)]"

definition example_fs :: node where
  "example_fs = Dir [(''data'', Dir example_runs)]"

definition example_world :: world where
  "example_world =
     \<lparr>fs = example_fs,
      uuid_source = (\<lambda>i. if i = 0 then ''1b4e28ba-2fa1-4d3b-a3f5-ef19b5a7633b''
                          else ''6fa459ea-ee8a-4ca4-894e-db77e160355e''),
      uuid_drawn = 0,
      spawned = []\<rparr>"


section \<open>Properties of the model\<close>

subsection \<open>Paths and their resolution\<close>

lemma split_on_nonempty: "split_on c s \<noteq> []"
  by (induction s) (auto split: list.splits)

lemma split_on_append: "split_on c (a @ c # b) = split_on c a @ split_on c b"
  by (induction a) (auto split: list.splits simp: split_on_nonempty)

lemma split_on_absent: "c \<notin> set s \<Longrightarrow> split_on c s = [s]"
  by (induction s) auto

lemma components_snoc_slash: "components (a @ ''/'') = components a"
  using split_on_append [of "CHR ''/''" a "[]"] by (simp add: components_def)

lemma components_join:
  assumes "valid_name n" and "a \<noteq> []"
  shows "components (join a n) = components a @ [n]"
proof -
  from assms(1) have n: "n \<noteq> []" "CHR ''/'' \<notin> set n" by (simp_all add: valid_name_def)
  then have hd: "hd n \<noteq> CHR ''/''" by (cases n) auto
  have one: "components n = [n]" using n by (simp add: components_def split_on_absent)
  show ?thesis
  proof (cases "last a = CHR ''/''")
    case True
    with assms(2) obtain a' where a: "a = a' @ ''/''"
      by (metis append_butlast_last_id)
    have "join a n = a' @ CHR ''/'' # n" using a hd n by (simp add: join_def)
    then have "components (join a n) = components a' @ components n"
      by (simp add: components_def split_on_append)
    then show ?thesis using a one components_snoc_slash [of a'] by simp
  next
    case False
    then have "join a n = a @ CHR ''/'' # n" using assms(2) hd n by (simp add: join_def)
    then show ?thesis using one by (simp add: components_def split_on_append)
  qed
qed

lemma join_nonempty: "valid_name n \<Longrightarrow> join a n \<noteq> []"
  by (auto simp: join_def valid_name_def)

lemma join_last: "valid_name n \<Longrightarrow> last (join a n) \<noteq> CHR ''/''"
proof -
  assume v: "valid_name n"
  then have n: "n \<noteq> []" "CHR ''/'' \<notin> set n" by (simp_all add: valid_name_def)
  then have "last n \<noteq> CHR ''/''" by (metis last_in_set)
  moreover have "hd n \<noteq> CHR ''/''" using n by (cases n) auto
  ultimately show ?thesis using n by (simp add: join_def)
qed

lemma walk_append:
  "walk cur anc (cs @ ds) =
     (case walk cur anc cs of Inl e \<Rightarrow> Inl e | Inr (n, a) \<Rightarrow> walk n a ds)"
  by (induction cur anc cs rule: walk.induct) (auto split: node.splits list.splits option.splits)

lemma walk_dot: "walk n a [''.''] = (case n of File \<Rightarrow> Inl NotADirectoryError | Dir es \<Rightarrow> Inr (n, a))"
  by (simp split: node.splits)

lemma lookup_walk:
  assumes "lookup t p = Inr nd"
  shows "p \<noteq> [] \<and> (\<exists>anc. walk t [] (components p) = Inr (nd, anc))"
proof -
  from assms have p: "p \<noteq> []" by (auto simp: lookup_def split: if_splits)
  show ?thesis
  proof (cases "last p = CHR ''/''")
    case True
    with assms p obtain anc where "walk t [] (components p @ [''.'']) = Inr (nd, anc)"
      by (auto simp: lookup_def split: sum.splits)
    then show ?thesis using p
      by (auto simp: walk_append walk_dot split: sum.splits node.splits)
  next
    case False
    with assms p show ?thesis by (auto simp: lookup_def split: sum.splits)
  qed
qed

lemma lookup_join:
  assumes "lookup t a = Inr (Dir es)" and "valid_name n"
  shows "lookup t (join a n) =
           (case map_of es n of None \<Rightarrow> Inl FileNotFoundError | Some m \<Rightarrow> Inr m)"
proof -
  from lookup_walk [OF assms(1)] obtain anc
    where a: "a \<noteq> []" and w: "walk t [] (components a) = Inr (Dir es, anc)" by blast
  from assms(2) have "n \<noteq> ''.''" "n \<noteq> ''..''" by (simp_all add: valid_name_def)
  then have "walk (Dir es) anc [n] =
      (case map_of es n of None \<Rightarrow> Inl FileNotFoundError | Some m \<Rightarrow> Inr (m, Dir es # anc))"
    by (simp split: option.splits)
  then show ?thesis
    using w a assms(2)
    by (simp add: lookup_def join_nonempty join_last components_join walk_append
        split: option.splits)
qed

lemma walk_wf:
  "wf_node cur \<Longrightarrow> list_all wf_node anc \<Longrightarrow> walk cur anc cs = Inr (n, a) \<Longrightarrow>
     wf_node n \<and> list_all wf_node a"
proof (induction cur anc cs rule: walk.induct)
  case (1 cur anc)
  then show ?case by simp
next
  case (2 cur anc c cs)
  then show ?case
    by (auto split: node.splits list.splits option.splits if_splits dest!: map_of_SomeD)
qed

lemma lookup_wf: "wf_node t \<Longrightarrow> lookup t p = Inr n \<Longrightarrow> wf_node n"
  using walk_wf [of t "[]" "components p"] lookup_walk [of t p n] by auto

lemma exists_marker:
  assumes "lookup t d = Inr nd" and "valid_name m"
  shows "exists t (join d m) = (m \<in> names nd)"
proof (cases nd)
  case File
  from lookup_walk [OF assms(1)] File obtain anc
    where a: "d \<noteq> []" and w: "walk t [] (components d) = Inr (File, anc)" by blast
  then show ?thesis using File assms(2)
    by (simp add: exists_def lookup_def join_nonempty join_last components_join walk_append)
next
  case (Dir es)
  then show ?thesis using lookup_join [of t d es m] assms
    by (auto simp: exists_def map_of_eq_None_iff split: option.splits dest: map_of_SomeD
        intro: rev_image_eqI)
qed

subsection \<open>The classifier\<close>

lemma re_match_append: "re_match p r \<Longrightarrow> re_match p (r @ s)"
  by (induction p r rule: re_match.induct) auto

lemma re_match_Times_Suc:
  "re_match ((c, Times (Suc n)) # p) s =
     (\<exists>x xs. s = x # xs \<and> in_cls c x \<and> re_match ((c, Times n) # p) xs)"
  by (cases s) auto

lemma re_match_Once:
  "re_match ((c, Once) # p) s = (\<exists>x xs. s = x # xs \<and> in_cls c x \<and> re_match p xs)"
  by (cases s) auto

lemma miseq_eighth: "re_match miseq_regex r \<Longrightarrow> 7 < length r \<and> r ! 7 = CHR ''M''"
  unfolding miseq_regex_def
  by (auto simp: eval_nat_numeral re_match_Times_Suc re_match_Once simp del: in_cls.simps(1,3))

lemma nextseq_eighth: "re_match nextseq_regex r \<Longrightarrow> 7 < length r \<and> r ! 7 = CHR ''V''"
  unfolding nextseq_regex_def
  by (auto simp: eval_nat_numeral re_match_Times_Suc re_match_Once simp del: in_cls.simps(1,3))

lemma patterns_exclusive: "\<not> (re_match miseq_regex r \<and> re_match nextseq_regex r)"
  using miseq_eighth [of r] nextseq_eighth [of r] by auto

lemma match_starts_with_digit:
  "re_match miseq_regex r \<or> re_match nextseq_regex r \<Longrightarrow> \<exists>x xs. r = x # xs \<and> in_cls Digit x"
  unfolding miseq_regex_def nextseq_regex_def
  by (auto simp: eval_nat_numeral re_match_Times_Suc simp del: in_cls.simps(1,3))

text \<open>
  C5. The classifier is a total function with three values: \<^verbatim>\<open>'miseq'\<close> exactly for the
  run IDs that match the MiSeq pattern, \<^verbatim>\<open>'nextseq'\<close> exactly for those that match the
  NextSeq pattern, and the unclassified value (Python's \<^verbatim>\<open>None\<close>, the specification's
  "unknown") exactly for those that match neither; no run ID matches both patterns. The
  three run IDs of the specification are classified as it says.
\<close>

theorem classifier_total_and_exclusive:
  "instrument_type r \<in> {Some ''miseq'', Some ''nextseq'', None}
   \<and> \<not> (re_match miseq_regex r \<and> re_match nextseq_regex r)
   \<and> (instrument_type r = Some ''miseq'') = re_match miseq_regex r
   \<and> (instrument_type r = Some ''nextseq'') = re_match nextseq_regex r
   \<and> (instrument_type r = None) = (\<not> re_match miseq_regex r \<and> \<not> re_match nextseq_regex r)
   \<and> instrument_type ''201203_M00325_0123_000000000-A1B2C'' = Some ''miseq''
   \<and> instrument_type ''201203_VH00123_0045_AB12CD345'' = Some ''nextseq''
   \<and> instrument_type ''randomfolder'' = None"
proof -
  have ex: "instrument_type ''201203_M00325_0123_000000000-A1B2C'' = Some ''miseq''"
    "instrument_type ''201203_VH00123_0045_AB12CD345'' = Some ''nextseq''"
    "instrument_type ''randomfolder'' = None"
    by (simp_all add: instrument_type_def miseq_regex_def nextseq_regex_def eval_nat_numeral)
  show ?thesis
    using patterns_exclusive [of r] ex by (auto simp: instrument_type_def)
qed

theorem classifier_total_and_exclusive_witness:
  "instrument_type ''201203_M00325_0123_000000000-A1B2Cxyz'' = Some ''miseq''
   \<and> \<not> re_match nextseq_regex ''201203_M00325_0123_000000000-A1B2Cxyz''"
proof -
  have "re_match miseq_regex ''201203_M00325_0123_000000000-A1B2Cxyz''"
    by (simp add: miseq_regex_def eval_nat_numeral)
  then show ?thesis
    using classifier_total_and_exclusive [of "''201203_M00325_0123_000000000-A1B2Cxyz''"]
    by simp
qed

text \<open>
  C6. Matching is anchored at the start and ignores what follows: a run ID that matches a
  pattern still matches it with any suffix appended, and is classified as before; a string
  that starts with a character other than a digit is unclassified whatever follows, so a
  pattern that occurs only further on does not count.
\<close>

theorem classification_is_prefix_match:
  "(re_match miseq_regex r \<longrightarrow> re_match miseq_regex (r @ s))
   \<and> (re_match nextseq_regex r \<longrightarrow> re_match nextseq_regex (r @ s))
   \<and> (instrument_type r \<noteq> None \<longrightarrow> instrument_type (r @ s) = instrument_type r)
   \<and> (\<not> in_cls Digit c \<longrightarrow> instrument_type (c # r) = None)"
proof -
  have m: "re_match miseq_regex r \<Longrightarrow> re_match miseq_regex (r @ s)"
    and n: "re_match nextseq_regex r \<Longrightarrow> re_match nextseq_regex (r @ s)"
    by (rule re_match_append, assumption)+
  have "instrument_type (r @ s) = instrument_type r" if "instrument_type r \<noteq> None"
  proof (cases "re_match miseq_regex r")
    case True
    with m show ?thesis by (simp add: instrument_type_def)
  next
    case False
    with that have nx: "re_match nextseq_regex r"
      by (simp add: instrument_type_def split: if_splits)
    with n patterns_exclusive [of "r @ s"] have "\<not> re_match miseq_regex (r @ s)" by blast
    with False nx n show ?thesis by (simp add: instrument_type_def)
  qed
  moreover have "instrument_type (c # r) = None" if "\<not> in_cls Digit c"
    using that match_starts_with_digit [of "c # r"]
    by (auto simp: instrument_type_def simp del: in_cls.simps)
  ultimately show ?thesis using m n by blast
qed

theorem classification_is_prefix_match_witness:
  "re_match nextseq_regex ''201203_VH00123_0045_AB12CD345''
   \<and> instrument_type ''201203_VH00123_0045_AB12CD345'' \<noteq> None
   \<and> \<not> in_cls Digit CHR ''x''
   \<and> instrument_type (''201203_VH00123_0045_AB12CD345'' @ ''_rerun'') = Some ''nextseq''
   \<and> instrument_type (CHR ''x'' # ''201203_VH00123_0045_AB12CD345'') = None"
proof -
  have a: "re_match nextseq_regex ''201203_VH00123_0045_AB12CD345''"
    by (simp add: nextseq_regex_def eval_nat_numeral)
  have b: "instrument_type ''201203_VH00123_0045_AB12CD345'' = Some ''nextseq''"
    by (simp add: instrument_type_def miseq_regex_def nextseq_regex_def eval_nat_numeral)
  have c: "\<not> in_cls Digit CHR ''x''" by simp
  show ?thesis
    using a b c
      classification_is_prefix_match
        [of "''201203_VH00123_0045_AB12CD345''" "''_rerun''" "CHR ''x''"]
    by simp
qed

subsection \<open>The command\<close>

lemma workflow_cmd_eq:
  "workflow_cmd run_dir u =
     ''nextflow run BCCDC-PHL/routine-qc -profile conda --cache ~/.conda/envs -r v0.3.2--run_dir ''
       @ run_dir @ '' --instrument_type '' @ format_value (instrument_type (basename run_dir))
       @ '' -work '' @ join run_dir (''work-'' @ u) @ '' --outdir '' @ join run_dir ''RoutineQC''"
  by (simp add: workflow_cmd_def)

lemma build_workflow_command_eq:
  "build_workflow_command run_dir w =
     (workflow_cmd run_dir (uuid_source w (uuid_drawn w)), w\<lparr>uuid_drawn := Suc (uuid_drawn w)\<rparr>)"
  by (simp add: build_workflow_command_def uuid4_def)


lemma starts_with_append: "starts_with (pat @ b) pat"
  by (induction pat) auto

lemma contains_prepend: "contains s pat \<Longrightarrow> contains (a @ s) pat"
  by (induction a) auto

lemma contains_middle: "contains (a @ pat @ b) pat"
proof -
  have "contains (pat @ b) pat"
    using starts_with_append [of pat b] by (cases "pat @ b") auto
  then show ?thesis by (rule contains_prepend)
qed




text \<open>
  C2, as the code has it. For a run directory whose run ID matches neither pattern, the
  command carries the unset instrument type as Python prints it: the text
  \<^verbatim>\<open>--instrument_type None\<close>, between the run directory and the \<^verbatim>\<open>-work\<close> argument.
\<close>

theorem unclassified_run_is_passed_as_None:
  assumes "\<not> re_match miseq_regex (basename run_dir)"
    and "\<not> re_match nextseq_regex (basename run_dir)"
  shows "(\<exists>pre. fst (build_workflow_command run_dir w) =
            pre @ run_dir @ '' --instrument_type None -work ''
              @ join run_dir (''work-'' @ uuid_source w (uuid_drawn w))
              @ '' --outdir '' @ join run_dir ''RoutineQC'')
         \<and> contains (fst (build_workflow_command run_dir w)) ''--instrument_type None''"
proof -
  from assms have n: "instrument_type (basename run_dir) = None"
    by (simp add: instrument_type_def)
  let ?u = "uuid_source w (uuid_drawn w)"
  have c: "fst (build_workflow_command run_dir w) =
      (''nextflow run BCCDC-PHL/routine-qc -profile conda --cache ~/.conda/envs -r v0.3.2--run_dir ''
        @ run_dir @ '' '') @ ''--instrument_type None''
        @ ('' -work '' @ join run_dir (''work-'' @ ?u) @ '' --outdir '' @ join run_dir ''RoutineQC'')"
    by (simp add: build_workflow_command_eq workflow_cmd_eq n)
  have "contains (fst (build_workflow_command run_dir w)) ''--instrument_type None''"
    unfolding c by (rule contains_middle)
  moreover have "\<exists>pre. fst (build_workflow_command run_dir w) =
            pre @ run_dir @ '' --instrument_type None -work ''
              @ join run_dir (''work-'' @ ?u) @ '' --outdir '' @ join run_dir ''RoutineQC''"
    unfolding c by (intro exI [of _ "''nextflow run BCCDC-PHL/routine-qc -profile conda --cache ~/.conda/envs -r v0.3.2--run_dir ''"]) simp
  ultimately show ?thesis by blast
qed

theorem unclassified_run_is_passed_as_None_witness:
  "\<not> re_match miseq_regex (basename ''/data/randomfolder'')
   \<and> \<not> re_match nextseq_regex (basename ''/data/randomfolder'')
   \<and> contains (fst (build_workflow_command ''/data/randomfolder'' example_world))
        ''--instrument_type None''"
proof -
  have a: "\<not> re_match miseq_regex (basename ''/data/randomfolder'')"
    and b: "\<not> re_match nextseq_regex (basename ''/data/randomfolder'')"
    by (simp_all add: basename_def miseq_regex_def nextseq_regex_def eval_nat_numeral)
  show ?thesis
    using a b unclassified_run_is_passed_as_None [OF a b, of example_world] by simp
qed

theorem unknown_is_not_passed_counterexample:
  "\<not> re_match miseq_regex (basename ''/data/randomfolder'')
   \<and> \<not> re_match nextseq_regex (basename ''/data/randomfolder'')
   \<and> \<not> contains (fst (build_workflow_command ''/data/randomfolder'' example_world))
          ''--instrument_type unknown''"
  by (simp add: build_workflow_command_eq workflow_cmd_eq example_world_def join_def
      basename_def instrument_type_def miseq_regex_def nextseq_regex_def eval_nat_numeral)

text \<open>
  C3. What the code does where the claim expects a space: the two f-strings of lines 46 and
  47 are joined as they are, so the version and the flag that follows form the single word
  \<^verbatim>\<open>v0.3.2--run_dir\<close> in every command. The words of the command built for a MiSeq run
  show it: there is no word \<^verbatim>\<open>--run_dir\<close>, the rest is as in the template.
\<close>

theorem version_runs_into_run_dir_flag:
  "(\<exists>rest. workflow_cmd run_dir u =
       ''nextflow run BCCDC-PHL/routine-qc -profile conda --cache ~/.conda/envs -r v0.3.2--run_dir ''
         @ rest)
   \<and> split_on CHR '' ''
        (fst (build_workflow_command ''/data/201203_M00325_0123_000000000-A1B2C'' example_world))
      = [''nextflow'', ''run'', ''BCCDC-PHL/routine-qc'', ''-profile'', ''conda'', ''--cache'',
         ''~/.conda/envs'', ''-r'', ''v0.3.2--run_dir'',
         ''/data/201203_M00325_0123_000000000-A1B2C'', ''--instrument_type'', ''miseq'',
         ''-work'',
         ''/data/201203_M00325_0123_000000000-A1B2C/work-1b4e28ba-2fa1-4d3b-a3f5-ef19b5a7633b'',
         ''--outdir'', ''/data/201203_M00325_0123_000000000-A1B2C/RoutineQC'']"
proof -
  have "split_on CHR '' ''
        (fst (build_workflow_command ''/data/201203_M00325_0123_000000000-A1B2C'' example_world))
      = [''nextflow'', ''run'', ''BCCDC-PHL/routine-qc'', ''-profile'', ''conda'', ''--cache'',
         ''~/.conda/envs'', ''-r'', ''v0.3.2--run_dir'',
         ''/data/201203_M00325_0123_000000000-A1B2C'', ''--instrument_type'', ''miseq'',
         ''-work'',
         ''/data/201203_M00325_0123_000000000-A1B2C/work-1b4e28ba-2fa1-4d3b-a3f5-ef19b5a7633b'',
         ''--outdir'', ''/data/201203_M00325_0123_000000000-A1B2C/RoutineQC'']"
    by (simp add: build_workflow_command_eq workflow_cmd_eq example_world_def join_def
        basename_def instrument_type_def miseq_regex_def nextseq_regex_def eval_nat_numeral)
  then show ?thesis by (simp add: workflow_cmd_eq)
qed

subsection \<open>The filter and what follows the scan\<close>

lemma valid_markers: "valid_name ''upload_complete.json''" "valid_name ''RoutineQC''"
  by (simp_all add: valid_name_def)

lemma filter_func_at: "lookup t d = Inr nd \<Longrightarrow> filter_func t d = (\<not> analysis_marker nd)"
  by (simp add: filter_func_def exists_marker valid_markers analysis_marker_def)

lemma map_build_workflow_command_eq:
  "map_build_workflow_command ds w =
     (map (\<lambda>(d, i). workflow_cmd d (uuid_source w (uuid_drawn w + i))) (zip ds [0..<length ds]),
      w\<lparr>uuid_drawn := uuid_drawn w + length ds\<rparr>)"
proof (induction ds arbitrary: w)
  case Nil
  then show ?case by simp
next
  case (Cons d ds)
  have "zip (d # ds) [0..<length (d # ds)] = (d, 0) # zip ds (map Suc [0..<length ds])"
    by (simp add: upt_conv_Cons map_Suc_upt del: upt_Suc)
  then show ?case
    by (simp add: Cons build_workflow_command_def uuid4_def zip_map2 case_prod_beta comp_def
        del: upt_Suc)
qed

lemma run_after_scan_Inr:
  "run_after_scan (Inr sds) w =
     (Inr \<lparr>subdirs = sds,
            subdirs_to_analyze = filter_analyzed_runs (fs w) sds,
            cmd = map (\<lambda>(d, i). workflow_cmd d (uuid_source w (uuid_drawn w + i)))
                    (zip (filter_analyzed_runs (fs w) sds)
                       [0..<length (filter_analyzed_runs (fs w) sds)])\<rparr>,
      w\<lparr>uuid_drawn := uuid_drawn w + length (filter_analyzed_runs (fs w) sds)\<rparr>)"
  by (simp add: run_after_scan_def map_build_workflow_command_eq Let_def)

lemma run_after_scan_Inl: "run_after_scan (Inl e) w = (Inl e, w)"
  by (simp add: run_after_scan_def)

lemma flow_run_fails: "flow_run p w = (Inl SyntaxError, w)"
  by (simp add: flow_run_def list_subdirectories_def run_after_scan_Inl)

lemma commands_for_nonempty:
  "length xs = length ys \<Longrightarrow>
     (map snd (filter (\<lambda>(d', c). d' = d) (zip xs ys)) \<noteq> []) = (d \<in> set xs)"
  by (induction xs ys rule: list_induct2) auto



lemma example_world_fs: "fs example_world = example_fs"
  by (simp add: example_world_def)


lemma example_lookup_runD:
  "lookup example_fs ''/data/runD'' = Inr (Dir [(''upload_complete.json'', Dir [])])"
  by (simp add: example_fs_def example_runs_def lookup_def components_def)

lemma example_lookup_runE:
  "lookup example_fs ''/data/runE''
     = Inr (Dir [(''upload_complete.json'', File), (''RoutineQC'', File)])"
  by (simp add: example_fs_def example_runs_def lookup_def components_def)



text \<open>
  C9. What the code does where the claim expects the eligible runs to be derived from the
  markers: every run of the flow raises at its first task and leaves the world as it was,
  so the second run fails as the first did and neither yields a set of eligible runs. What
  follows the scan would keep the directory tree as it is, and would take as eligible the
  candidates in which no \<^verbatim>\<open>RoutineQC\<close> exists, with no regard to the UUIDs drawn before.
\<close>

theorem flow_run_yields_no_eligible_set:
  "flow_run p w = (Inl SyntaxError, w)
   \<and> flow_run p (snd (flow_run p w)) = (Inl SyntaxError, w)
   \<and> eligible_runs (fst (flow_run p w)) = Inl SyntaxError
   \<and> fs (snd (run_after_scan scanned w)) = fs w
   \<and> eligible_runs (fst (run_after_scan (Inr sds) w))
       = Inr {d. d \<in> set sds \<and> \<not> exists (fs w) (join d ''RoutineQC'')}"
proof -
  have "fs (snd (run_after_scan scanned w)) = fs w"
    by (cases scanned) (simp_all add: run_after_scan_Inl run_after_scan_Inr)
  moreover have "eligible_runs (fst (run_after_scan (Inr sds) w))
       = Inr {d. d \<in> set sds \<and> \<not> exists (fs w) (join d ''RoutineQC'')}"
    by (auto simp: run_after_scan_Inr eligible_runs_def filter_analyzed_runs_def filter_func_def)
  ultimately show ?thesis by (simp add: flow_run_fails eligible_runs_def)
qed

section \<open>The scan with line 26 closed\<close>

text \<open>
  The lemmas of this section are about \<open>list_subdirectories_closed\<close> and the flow that
  starts with it: they say what the scan would return if line 26 were closed, not what
  the repository's code does.
\<close>

lemma foldl_append_filter:
  "foldl (\<lambda>acc f. if P f then acc @ [g f] else acc) acc0 xs = acc0 @ map g (filter P xs)"
  by (induction xs arbitrary: acc0) auto

lemma join_inject: "valid_name n \<Longrightarrow> valid_name n' \<Longrightarrow> join a n = join a n' \<Longrightarrow> n = n'"
  by (cases n; cases n') (auto simp: join_def valid_name_def split: if_splits)

lemma lookup_child:
  assumes "wf_node t" and "lookup t parent_dir = Inr (Dir es)" and "(n, nd) \<in> set es"
  shows "lookup t (join parent_dir n) = Inr nd"
proof -
  from assms(1,2) have wf: "wf_node (Dir es)" by (rule lookup_wf)
  with assms(3) have "valid_name n" "map_of es n = Some nd" by auto
  with assms(2) show ?thesis by (simp add: lookup_join)
qed

lemma list_subdirectories_closed_eq:
  assumes "wf_node t" and "lookup t parent_dir = Inr (Dir es)"
  shows "list_subdirectories_closed t parent_dir =
           Inr (map (\<lambda>e. join parent_dir (fst e))
                  (filter (\<lambda>e. is_Dir (snd e) \<and> completion_marker (snd e)) es))"
proof -
  let ?f = "\<lambda>(n, nd). \<lparr>name = n, path = join parent_dir n, is_dir = is_Dir nd\<rparr>"
  let ?P = "\<lambda>f. is_dir f \<and> exists t (join (path f) ''upload_complete.json'')"
  let ?Q = "\<lambda>e. is_Dir (snd e) \<and> completion_marker (snd e)"
  have "?P (?f e) = ?Q e" if "e \<in> set es" for e
  proof -
    obtain n nd where e: "e = (n, nd)" by (cases e)
    with that assms have "lookup t (join parent_dir n) = Inr nd" by (simp add: lookup_child)
    then show ?thesis using e by (simp add: exists_marker valid_markers completion_marker_def)
  qed
  then have "filter ?P (map ?f es) = map ?f (filter ?Q es)"
    by (simp add: filter_map comp_def cong: filter_cong)
  moreover have "map path (map ?f xs) = map (\<lambda>e. join parent_dir (fst e)) xs" for xs
    by (simp add: case_prod_beta)
  ultimately show ?thesis
    using assms(2) by (simp add: list_subdirectories_closed_def scandir_def foldl_append_filter)
qed

lemma filter_func_child:
  assumes "wf_node t" and "lookup t parent_dir = Inr (Dir es)" and "(n, nd) \<in> set es"
  shows "filter_func t (join parent_dir n) = (\<not> analysis_marker nd)"
  using lookup_child [OF assms]
  by (simp add: filter_func_def exists_marker valid_markers analysis_marker_def)

lemma filter_analyzed_runs_eq:
  assumes "wf_node t" and "lookup t parent_dir = Inr (Dir es)"
  shows "filter_analyzed_runs t
           (map (\<lambda>e. join parent_dir (fst e))
              (filter (\<lambda>e. is_Dir (snd e) \<and> completion_marker (snd e)) es))
         = map (\<lambda>e. join parent_dir (fst e)) (filter (\<lambda>e. eligible (snd e)) es)"
proof -
  have "filter_func t (join parent_dir (fst e)) = (\<not> analysis_marker (snd e))"
    if "e \<in> set es" for e
    using that filter_func_child [OF assms, of "fst e" "snd e"] by simp
  then have "filter (\<lambda>e. filter_func t (join parent_dir (fst e)))
               (filter (\<lambda>e. is_Dir (snd e) \<and> completion_marker (snd e)) es)
             = filter (\<lambda>e. eligible (snd e)) es"
    by (auto simp: eligible_def intro: filter_cong)
  then show ?thesis
    by (simp add: filter_analyzed_runs_def filter_map comp_def)
qed

lemma child_path_mem:
  assumes "wf_node (Dir es)" and "(n, nd) \<in> set es"
  shows "(join parent_dir n \<in> set (map (\<lambda>e. join parent_dir (fst e)) (filter (\<lambda>e. Q (snd e)) es)))
           = Q nd"
proof
  assume "join parent_dir n \<in> set (map (\<lambda>e. join parent_dir (fst e)) (filter (\<lambda>e. Q (snd e)) es))"
  then obtain n' nd' where e: "(n', nd') \<in> set es" "Q nd'" "join parent_dir n' = join parent_dir n"
    by auto
  from assms e(1) have "valid_name n" "valid_name n'" by auto
  with e(3) have "n' = n" by (metis join_inject)
  with assms e(1) have "nd' = nd" by (auto dest: eq_key_imp_eq_value)
  with e(2) show "Q nd" by simp
next
  assume "Q nd"
  with assms(2) show "join parent_dir n \<in> set (map (\<lambda>e. join parent_dir (fst e)) (filter (\<lambda>e. Q (snd e)) es))"
    by force
qed

lemma child_paths_distinct:
  assumes "wf_node (Dir es)"
  shows "distinct (map (\<lambda>e. join parent_dir (fst e)) (filter P es))"
proof -
  from assms have v: "\<forall>e \<in> set es. valid_name (fst e)" and d: "distinct (map fst es)" by auto
  have "inj_on (join parent_dir) (fst ` set es)"
    using v by (auto intro!: inj_onI dest: join_inject)
  with d have "distinct (map (join parent_dir) (map fst es))"
    by (subst distinct_map) simp
  then have "distinct (map (\<lambda>e. join parent_dir (fst e)) es)" by (simp add: comp_def)
  then show ?thesis by (rule distinct_map_filter)
qed

lemma closed_scan_returns_completed_children:
  assumes "wf_node t" and "lookup t root = Inr (Dir es)"
  shows "\<exists>ps. list_subdirectories_closed t root = Inr ps \<and> distinct ps
           \<and> set ps \<subseteq> (\<lambda>e. join root (fst e)) ` set es
           \<and> (\<forall>n nd. (n, nd) \<in> set es \<longrightarrow>
                 (join root n \<in> set ps) = (is_Dir nd \<and> completion_marker nd))"
proof -
  from assms have wf: "wf_node (Dir es)" by (rule lookup_wf)
  let ?ps = "map (\<lambda>e. join root (fst e))
               (filter (\<lambda>e. is_Dir (snd e) \<and> completion_marker (snd e)) es)"
  have "list_subdirectories_closed t root = Inr ?ps" using assms by (rule list_subdirectories_closed_eq)
  moreover have "distinct ?ps" using wf by (rule child_paths_distinct)
  moreover have "set ?ps \<subseteq> (\<lambda>e. join root (fst e)) ` set es" by auto
  moreover have "(join root n \<in> set ?ps) = (is_Dir nd \<and> completion_marker nd)"
    if "(n, nd) \<in> set es" for n nd
    using child_path_mem [OF wf that, of root "\<lambda>x. is_Dir x \<and> completion_marker x"] by simp
  ultimately show ?thesis by blast
qed

lemma example_wf: "wf_node example_fs"
  by (simp add: example_fs_def example_runs_def valid_name_def)

lemma example_lookup: "lookup example_fs ''/data'' = Inr (Dir example_runs)"
  by (simp add: example_fs_def lookup_def components_def)

lemma example_joins:
  "join ''/data'' ''runA'' = ''/data/runA''"
  "join ''/data'' ''runB'' = ''/data/runB''"
  "join ''/data'' ''runC'' = ''/data/runC''"
  "join ''/data'' ''runD'' = ''/data/runD''"
  "join ''/data'' ''runE'' = ''/data/runE''"
  "join ''/data'' ''notes.txt'' = ''/data/notes.txt''"
  by (simp_all add: join_def)

lemma example_closed_scan:
  "list_subdirectories_closed example_fs ''/data''
     = Inr [''/data/runA'', ''/data/runC'', ''/data/runD'', ''/data/runE'']"
  using list_subdirectories_closed_eq [OF example_wf example_lookup]
  by (simp add: example_runs_def completion_marker_def example_joins)

lemma flow_run_closed_eq:
  assumes "wf_node (fs w)" and "lookup (fs w) parent_dir = Inr (Dir es)"
  defines "sta \<equiv> map (\<lambda>e. join parent_dir (fst e)) (filter (\<lambda>e. eligible (snd e)) es)"
  shows "flow_run_closed parent_dir w =
           (Inr \<lparr>subdirs = map (\<lambda>e. join parent_dir (fst e))
                              (filter (\<lambda>e. is_Dir (snd e) \<and> completion_marker (snd e)) es),
                 subdirs_to_analyze = sta,
                 cmd = map (\<lambda>(d, i). workflow_cmd d (uuid_source w (uuid_drawn w + i)))
                         (zip sta [0..<length sta])\<rparr>,
            w\<lparr>uuid_drawn := uuid_drawn w + length sta\<rparr>)"
  unfolding flow_run_closed_def sta_def
  by (simp add: list_subdirectories_closed_eq [OF assms(1,2)]
      filter_analyzed_runs_eq [OF assms(1,2)] run_after_scan_Inr)

lemma commands_for_single:
  "distinct xs \<Longrightarrow> i < length xs \<Longrightarrow>
     map snd (filter (\<lambda>(d', c). d' = xs ! i) (zip xs (map f (zip xs [k..<k + length xs]))))
       = [f (xs ! i, k + i)]"
proof (induction xs arbitrary: i k)
  case Nil
  then show ?case by simp
next
  case (Cons x xs)
  have z: "zip (x # xs) [k..<k + length (x # xs)] = (x, k) # zip xs [Suc k..<Suc k + length xs]"
    by (simp add: upt_conv_Cons del: upt_Suc)
  show ?case
  proof (cases i)
    case 0
    have "filter (\<lambda>(d', c). d' = x) (zip xs ys) = []" for ys :: "'b list"
      using Cons.prems(1) by (auto simp: filter_empty_conv dest: set_zip_leftD)
    with 0 z show ?thesis by simp
  next
    case (Suc j)
    with Cons.prems have "xs ! j \<noteq> x" "j < length xs" "distinct xs" by auto
    with Suc z Cons.IH [of j "Suc k"] show ?thesis by simp
  qed
qed

lemma closed_flow_commands_only_for_eligible_runs:
  assumes "wf_node (fs w)" and "lookup (fs w) parent_dir = Inr (Dir es)"
    and "(n, nd) \<in> set es"
  shows "\<exists>r w'. flow_run_closed parent_dir w = (Inr r, w')
           \<and> length (cmd r) = length (subdirs_to_analyze r)
           \<and> set (subdirs_to_analyze r) \<subseteq> (\<lambda>e. join parent_dir (fst e)) ` set es
           \<and> (commands_for r (join parent_dir n) \<noteq> [])
               = (is_Dir nd \<and> completion_marker nd \<and> \<not> analysis_marker nd)
           \<and> (\<not> completion_marker nd \<or> analysis_marker nd
                \<longrightarrow> commands_for r (join parent_dir n) = [])
           \<and> (is_Dir nd \<and> completion_marker nd \<and> \<not> analysis_marker nd
                \<longrightarrow> (\<exists>i. commands_for r (join parent_dir n)
                            = [workflow_cmd (join parent_dir n) (uuid_source w (uuid_drawn w + i))]))"
proof -
  from assms(1,2) have wf: "wf_node (Dir es)" by (rule lookup_wf)
  define sta where "sta = map (\<lambda>e. join parent_dir (fst e)) (filter (\<lambda>e. eligible (snd e)) es)"
  define f where "f = (\<lambda>(d, i). workflow_cmd d (uuid_source w (uuid_drawn w + i)))"
  define r where "r = \<lparr>subdirs = map (\<lambda>e. join parent_dir (fst e))
                              (filter (\<lambda>e. is_Dir (snd e) \<and> completion_marker (snd e)) es),
                 subdirs_to_analyze = sta,
                 cmd = map f (zip sta [0..<length sta])\<rparr>"
  have run: "flow_run_closed parent_dir w = (Inr r, w\<lparr>uuid_drawn := uuid_drawn w + length sta\<rparr>)"
    using flow_run_closed_eq [OF assms(1,2)] by (simp add: r_def sta_def f_def)
  have len: "length (cmd r) = length (subdirs_to_analyze r)" by (simp add: r_def)
  have sub: "set (subdirs_to_analyze r) \<subseteq> (\<lambda>e. join parent_dir (fst e)) ` set es"
    by (auto simp: r_def sta_def)
  have mem: "(join parent_dir n \<in> set sta) = eligible nd"
    unfolding sta_def using wf assms(3) by (rule child_path_mem)
  have ne: "(commands_for r (join parent_dir n) \<noteq> []) = eligible nd"
    unfolding commands_for_def using commands_for_nonempty [OF len [symmetric]] mem
    by (simp add: r_def)
  have dist: "distinct sta" unfolding sta_def using wf by (rule child_paths_distinct)
  have one: "\<exists>i. commands_for r (join parent_dir n)
                = [workflow_cmd (join parent_dir n) (uuid_source w (uuid_drawn w + i))]"
    if "eligible nd"
  proof -
    from that mem obtain i where i: "i < length sta" "sta ! i = join parent_dir n"
      by (auto simp: in_set_conv_nth)
    from commands_for_single [OF dist i(1), of f 0] i(2)
    have "commands_for r (join parent_dir n) = [f (join parent_dir n, i)]"
      by (simp add: commands_for_def r_def)
    then show ?thesis by (auto simp: f_def)
  qed
  from run len sub ne one show ?thesis
    by (auto simp: eligible_def names.simps completion_marker_def)
qed

section \<open>The scan as it is written\<close>

text \<open>
  C7. What the code does where the claim expects the list of the completed runs: the scan
  raises \<^verbatim>\<open>SyntaxError\<close> for every tree and every root, also for the existing root
  \<^verbatim>\<open>/data\<close> of the example, whose four completed runs the scan with line 26 closed
  would return.
\<close>

theorem scan_raises_syntax_error:
  "list_subdirectories t root = Inl SyntaxError
   \<and> lookup example_fs ''/data'' = Inr (Dir example_runs)
   \<and> list_subdirectories example_fs ''/data'' = Inl SyntaxError
   \<and> list_subdirectories_closed example_fs ''/data''
       = Inr [''/data/runA'', ''/data/runC'', ''/data/runD'', ''/data/runE'']"
  by (simp add: list_subdirectories_def example_lookup example_closed_scan)

text \<open>
  C10. The analysis-marker check asks only whether the path exists: for a run directory,
  an entry named \<^verbatim>\<open>RoutineQC\<close> of either kind, regular file or directory, makes the filter
  reject the run. The completion-marker check is line 26, and never runs: the scan raises
  for every root, so the run of the example whose \<^verbatim>\<open>upload_complete.json\<close> is a directory
  is not returned as complete, and no other run is; the scan with line 26 closed would
  return it.
\<close>

theorem completion_check_never_runs:
  "(lookup t d = Inr (Dir es') \<longrightarrow>
      filter_func t d = (\<not> (\<exists>k. (''RoutineQC'', k) \<in> set es'))
      \<and> filter_analyzed_runs t [d] = (if \<exists>k. (''RoutineQC'', k) \<in> set es' then [] else [d]))
   \<and> list_subdirectories t root = Inl SyntaxError
   \<and> lookup example_fs ''/data/runD'' = Inr (Dir [(''upload_complete.json'', Dir [])])
   \<and> list_subdirectories example_fs ''/data'' = Inl SyntaxError
   \<and> (\<exists>ps. list_subdirectories_closed example_fs ''/data'' = Inr ps \<and> ''/data/runD'' \<in> set ps)"
proof -
  have "filter_func t d = (\<not> (\<exists>k. (''RoutineQC'', k) \<in> set es'))"
    if "lookup t d = Inr (Dir es')"
    using filter_func_at [OF that] by (force simp: analysis_marker_def)
  then show ?thesis
    by (simp add: filter_analyzed_runs_def list_subdirectories_def example_lookup_runD
        example_closed_scan)
qed

theorem completion_check_never_runs_witness:
  "lookup example_fs ''/data/runE''
     = Inr (Dir [(''upload_complete.json'', File), (''RoutineQC'', File)])
   \<and> \<not> filter_func example_fs ''/data/runE''
   \<and> filter_analyzed_runs example_fs [''/data/runE''] = []"
  using completion_check_never_runs
          [of example_fs "''/data/runE''"
             "[(''upload_complete.json'', File), (''RoutineQC'', File)]"]
    example_lookup_runE
  by simp

text \<open>
  C4. What the code does where the claim expects a dispatch: a run of the flow starts no
  child process, whatever its scan returns or raises. So it is for the flow as written,
  whose scan raises, and for the flow with line 26 closed, which over the example tree
  builds the commands for the two eligible runs while the log of started processes stays
  empty.
\<close>

theorem flow_run_starts_no_process:
  "spawned (snd (run_after_scan scanned w)) = spawned w
   \<and> spawned (snd (flow_run p w)) = spawned w
   \<and> spawned (snd (flow_run_closed p w)) = spawned w
   \<and> (\<exists>r w'. flow_run_closed ''/data'' example_world = (Inr r, w')
         \<and> subdirs_to_analyze r = [''/data/runA'', ''/data/runD'']
         \<and> length (cmd r) = 2
         \<and> spawned w' = [])"
proof -
  have g: "spawned (snd (run_after_scan s v)) = spawned v" for s v
    by (cases s) (simp_all add: run_after_scan_Inl run_after_scan_Inr)
  have "\<exists>r w'. flow_run_closed ''/data'' example_world = (Inr r, w')
         \<and> subdirs_to_analyze r = [''/data/runA'', ''/data/runD'']
         \<and> length (cmd r) = 2
         \<and> spawned w' = []"
    using flow_run_closed_eq [of example_world "''/data''" example_runs]
    by (simp add: example_world_fs example_wf example_lookup)
      (simp add: example_runs_def eligible_def completion_marker_def analysis_marker_def
        example_joins example_world_def)
  with g show ?thesis by (simp add: flow_run_def flow_run_closed_def)
qed

end
